theory Spec2Isabelle
  imports Main "HOL-Library.Word"
begin

section \<open>The view-state coordinator of imgv (canvas.go)\<close>

text \<open>
  The coordinator is one goroutine that owns the view state (which image is shown and
  where the visible region is anchored) and handles one message at a time from a
  \<^verbatim>\<open>select\<close> over eight channels. The model is a step function on an explicit state
  record: one step per received message, returning the calls made to the window and to
  the load triggers as a list of effects, and a fault where the Go code would panic.
\<close>

subsection \<open>Integers, points, rectangles\<close>

text \<open>
  Go's \<^verbatim>\<open>int\<close> on a 64-bit platform: a 64-bit two's complement integer whose arithmetic
  wraps around. Coordinates and sizes are words, compared as signed values (\<open><s\<close>).
  Slot indices are modelled as unbounded \<open>int\<close>: every index the code computes is
  \<^verbatim>\<open>current - 1\<close>, \<^verbatim>\<open>current\<close> or \<^verbatim>\<open>current + 1\<close> with \<^verbatim>\<open>0 <= current < len(imgs)\<close>, and the
  length of a Go slice fits an \<^verbatim>\<open>int\<close>, so no index computation can wrap.
\<close>

type_synonym gint = "64 word"

text \<open>\<^verbatim>\<open>image.Point\<close> and \<^verbatim>\<open>image.Rectangle\<close> of the Go standard library.\<close>

record point =
  X :: gint
  Y :: gint

record rectangle =
  Min_pt :: point
  Max_pt :: point

definition Dx :: "rectangle \<Rightarrow> gint" where
  "Dx r = X (Max_pt r) - X (Min_pt r)"

definition Dy :: "rectangle \<Rightarrow> gint" where
  "Dy r = Y (Max_pt r) - Y (Min_pt r)"

text \<open>\<^verbatim>\<open>image.Rect(x0, y0, x1, y1)\<close>: the corners, swapped where needed so that Min <= Max.\<close>

definition Rect :: "gint \<Rightarrow> gint \<Rightarrow> gint \<Rightarrow> gint \<Rightarrow> rectangle" where
  "Rect x0 y0 x1 y1 =
     (let xa = (if x1 <s x0 then x1 else x0); xb = (if x1 <s x0 then x0 else x1);
          ya = (if y1 <s y0 then y1 else y0); yb = (if y1 <s y0 then y0 else y1)
      in \<lparr>Min_pt = \<lparr>X = xa, Y = ya\<rparr>, Max_pt = \<lparr>X = xb, Y = yb\<rparr>\<rparr>)"

text \<open>
  Modelled from the spec: the helpers \<^verbatim>\<open>min\<close> and \<^verbatim>\<open>max\<close> on \<^verbatim>\<open>int\<close> that \<^verbatim>\<open>originTrans\<close>
  calls are defined in another file of the repository. The spec describes their use as
  clamping a coordinate into a range, so \<^verbatim>\<open>min\<close> is the smaller of two signed integers.
\<close>

definition min_go :: "gint \<Rightarrow> gint \<Rightarrow> gint" where
  "min_go a b = (if a <s b then a else b)"

text \<open>
  Modelled from the spec: the helper \<^verbatim>\<open>max\<close>, missing from the source like \<^verbatim>\<open>min\<close>; the
  larger of two signed integers.
\<close>

definition max_go :: "gint \<Rightarrow> gint \<Rightarrow> gint" where
  "max_go a b = (if b <s a then a else b)"

subsection \<open>Images and the window\<close>

text \<open>
  Modelled from the spec: the type \<^verbatim>\<open>vimage\<close> is declared in another file of the
  repository. The code uses its field \<^verbatim>\<open>name\<close> and its method \<^verbatim>\<open>Bounds()\<close>; the spec's image
  object contract says it is immutable and exposes bounds and a display name. A
  \<^verbatim>\<open>*vimage\<close> that may be \<^verbatim>\<open>nil\<close> is a \<open>vimage option\<close>.
\<close>

record vimage =
  name :: string
  Bounds :: rectangle

text \<open>
  Modelled from the spec: the type \<^verbatim>\<open>window\<close> is declared in another file of the
  repository. The coordinator only reads \<^verbatim>\<open>win.Geom.Width()\<close> and \<^verbatim>\<open>win.Geom.Height()\<close>,
  afresh at every transform (the spec's window geometry), so the geometry in force is a
  parameter of every step.
\<close>

record window =
  Width :: gint
  Height :: gint

subsection \<open>originTrans\<close>

definition originTrans :: "point \<Rightarrow> window \<Rightarrow> vimage option \<Rightarrow> point" where
  "originTrans pt win im =
     (case im of
        None \<Rightarrow> \<lparr>X = 0, Y = 0\<rparr>
      | Some v \<Rightarrow>
          (let ww = Width win; wh = Height win;
               dw = Dx (Bounds v) - ww;
               dh = Dy (Bounds v) - wh;
               pt1 = pt\<lparr>X := min_go (X (Min_pt (Bounds v)) + dw) (max_go (X pt) 0)\<rparr>;
               pt2 = pt1\<lparr>Y := min_go (Y (Min_pt (Bounds v)) + dh) (max_go (Y pt1) 0)\<rparr>;
               pt3 = (if Dx (Bounds v) <s ww then pt2\<lparr>X := 0\<rparr> else pt2);
               pt4 = (if Dy (Bounds v) <s wh then pt3\<lparr>Y := 0\<rparr> else pt3)
           in pt4))"

subsection \<open>Effects and faults\<close>

text \<open>
  The calls the coordinator makes to its collaborators, in the order it makes them:
  \<^verbatim>\<open>window.ClearAll()\<close>, \<^verbatim>\<open>window.nameSet(s)\<close>, a send on \<^verbatim>\<open>imgLoadChans[i]\<close>,
  \<^verbatim>\<open>win.paint(img.SubImage(r))\<close> and \<^verbatim>\<open>window.Resize(w, h)\<close>. A send on an unbuffered channel
  waits for its receiver; the model records the send and not the wait.
\<close>

datatype effect =
    ClearAll
  | NameSet string
  | Fire int
  | Paint vimage rectangle
  | Resize gint gint

text \<open>The run-time panics of Go that the code can reach.\<close>

datatype fault = NilDeref | IndexOutOfRange

subsection \<open>Formatting of window titles\<close>

text \<open>The verb \<^verbatim>\<open>%d\<close> of \<^verbatim>\<open>fmt.Sprintf\<close> on an \<^verbatim>\<open>int\<close>: decimal digits, with a sign when negative.\<close>

function digits :: "nat \<Rightarrow> string" where
  "digits n =
     (if n < 10 then [''0123456789'' ! n]
      else digits (n div 10) @ [''0123456789'' ! (n mod 10)])"
  by pat_completeness auto
termination
  by (relation "measure id") auto

declare digits.simps [simp del]

definition fmt_d :: "gint \<Rightarrow> string" where
  "fmt_d w = (if sint w < 0 then CHR ''-'' # digits (nat (- sint w)) else digits (nat (sint w)))"

subsection \<open>show\<close>

definition show_img :: "window \<Rightarrow> vimage option \<Rightarrow> point \<Rightarrow> effect list" where
  "show_img win im pt =
     (case im of
        None \<Rightarrow> []
      | Some v \<Rightarrow>
          (let p = originTrans pt win (Some v) in
             [Paint v (Rect (X p) (Y p) (X p + Width win) (Y p + Height win)),
              NameSet (name v @ '' ('' @ fmt_d (Dx (Bounds v)) @ ''x''
                         @ fmt_d (Dy (Bounds v)) @ '')'')]))"

subsection \<open>The coordinator's state\<close>

text \<open>
  The variables captured by the goroutine of \<^verbatim>\<open>canvas\<close>. A channel handle of
  \<^verbatim>\<open>imgLoadChans\<close> is \<open>True\<close> while it is non-nil.
\<close>

record state =
  names :: "string list"
  imgs :: "vimage option list"
  imgLoadChans :: "bool list"
  current :: int
  origin :: point
  panStart :: point
  panOrigin :: point

definition canvas_init :: "string list \<Rightarrow> nat \<Rightarrow> state" where
  "canvas_init ns nimgs =
     \<lparr>names = ns, imgs = replicate nimgs None, imgLoadChans = replicate nimgs True,
      current = 0, origin = \<lparr>X = 0, Y = 0\<rparr>,
      panStart = \<lparr>X = 0, Y = 0\<rparr>, panOrigin = \<lparr>X = 0, Y = 0\<rparr>\<rparr>"

subsection \<open>setImage\<close>

definition setImage :: "int \<Rightarrow> point \<Rightarrow> window \<Rightarrow> state \<Rightarrow> effect list \<times> (fault + state)" where
  "setImage i0 pt win st =
     (let n = int (length (imgs st));
          i1 = (if i0 \<ge> n then 0 else i0);
          i = (if i1 < 0 then n - 1 else i1);
          e1 = (if current st \<noteq> i then [ClearAll] else []);
          st1 = st\<lparr>current := i\<rparr>
      in if \<not> (0 \<le> i \<and> i < n) then (e1, Inl IndexOutOfRange)
         else (case imgs st1 ! nat i of
                 None \<Rightarrow>
                   if \<not> i < int (length (names st1)) then (e1, Inl IndexOutOfRange)
                   else
                     (let e2 = e1 @ [NameSet (names st1 ! nat i @ '' - Loading...'')] in
                        if \<not> i < int (length (imgLoadChans st1)) then (e2, Inl IndexOutOfRange)
                        else if imgLoadChans st1 ! nat i
                          then (e2 @ [Fire i],
                                Inr (st1\<lparr>imgLoadChans := (imgLoadChans st1)[nat i := False]\<rparr>))
                          else (e2, Inr st1))
               | Some v \<Rightarrow>
                   (let st2 = st1\<lparr>origin := originTrans pt win (imgs st1 ! nat (current st1))\<rparr>
                    in (e1 @ show_img win (imgs st2 ! nat i) (origin st2), Inr st2))))"

subsection \<open>The message loop\<close>

record imageLoaded =
  img :: "vimage option"
  index :: int

datatype event =
    ImgChan imageLoaded
  | DrawChan "point \<Rightarrow> point"
  | ResizeToImageChan
  | PrevImg
  | NextImg
  | PanStartChan point
  | PanStepChan point
  | PanEndChan

text \<open>One iteration of the \<^verbatim>\<open>for { select { ... } }\<close> loop, for the message received.\<close>

fun step :: "window \<Rightarrow> event \<Rightarrow> state \<Rightarrow> effect list \<times> (fault + state)" where
  "step win (ImgChan m) st =
     (if 0 \<le> index m \<and> index m < int (length (imgs st)) then
        (let st1 = st\<lparr>imgs := (imgs st)[nat (index m) := img m]\<rparr> in
           (if current st1 = index m
              then show_img win (imgs st1 ! nat (current st1)) (origin st1)
              else [],
            Inr st1))
      else ([], Inl IndexOutOfRange))"
| "step win (DrawChan funpt) st = setImage (current st) (funpt (origin st)) win st"
| "step win ResizeToImageChan st =
     (if 0 \<le> current st \<and> current st < int (length (imgs st)) then
        (case imgs st ! nat (current st) of
           None \<Rightarrow> ([], Inl NilDeref)
         | Some v \<Rightarrow> ([Resize (Dx (Bounds v)) (Dy (Bounds v))], Inr st))
      else ([], Inl IndexOutOfRange))"
| "step win PrevImg st = setImage (current st - 1) \<lparr>X = 0, Y = 0\<rparr> win st"
| "step win NextImg st = setImage (current st + 1) \<lparr>X = 0, Y = 0\<rparr> win st"
| "step win (PanStartChan pt) st = ([], Inr (st\<lparr>panStart := pt, panOrigin := origin st\<rparr>))"
| "step win (PanStepChan pt) st =
     (let xd = X (panStart st) - X pt; yd = Y (panStart st) - Y pt in
        setImage (current st) \<lparr>X = xd + X (panOrigin st), Y = yd + Y (panOrigin st)\<rparr> win st)"
| "step win PanEndChan st =
     ([], Inr (st\<lparr>panStart := \<lparr>X = 0, Y = 0\<rparr>, panOrigin := \<lparr>X = 0, Y = 0\<rparr>\<rparr>))"

text \<open>
  The loop itself never ends; a finite list of messages, each with the window geometry
  in force when it is handled, is a prefix of an execution. A panic ends the run.
\<close>

fun run :: "(window \<times> event) list \<Rightarrow> state \<Rightarrow> effect list \<times> (fault + state)" where
  "run [] st = ([], Inr st)"
| "run (we # rest) st =
     (case step (fst we) (snd we) st of
        (es, Inl f) \<Rightarrow> (es, Inl f)
      | (es, Inr st1) \<Rightarrow> (case run rest st1 of (es', r) \<Rightarrow> (es @ es', r)))"

subsection \<open>Notions used to state the properties\<close>

text \<open>
  The range of the spec's clamp-range property, over the mathematical values of the
  coordinates: on each axis from 0 to the image's minimum bound plus
  \<open>max 0 (image size - window size)\<close>.
\<close>

definition in_clamp_range :: "point \<Rightarrow> window \<Rightarrow> rectangle \<Rightarrow> bool" where
  "in_clamp_range r win b \<longleftrightarrow>
     0 \<le> sint (X r) \<and>
     sint (X r) \<le> sint (X (Min_pt b))
                   + max 0 (sint (X (Max_pt b)) - sint (X (Min_pt b)) - sint (Width win)) \<and>
     0 \<le> sint (Y r) \<and>
     sint (Y r) \<le> sint (Y (Min_pt b))
                   + max 0 (sint (Y (Max_pt b)) - sint (Y (Min_pt b)) - sint (Height win))"

text \<open>
  The states the coordinator can be in: at least one slot, one trigger handle per slot,
  a display name for every slot, and \<open>current\<close> a slot index. \<open>canvas_init\<close> gives such a
  state and every step keeps it (lemmas \<open>wf_init\<close> and \<open>wf_run\<close> below).
\<close>

definition wf_state :: "state \<Rightarrow> bool" where
  "wf_state st \<longleftrightarrow>
     0 < length (imgs st) \<and>
     length (imgLoadChans st) = length (imgs st) \<and>
     length (imgs st) \<le> length (names st) \<and>
     0 \<le> current st \<and> current st < int (length (imgs st))"

text \<open>The index \<^verbatim>\<open>setImage\<close> settles on, for \<open>n\<close> slots and a requested index \<open>i\<close>.\<close>

definition wrap :: "int \<Rightarrow> int \<Rightarrow> int" where
  "wrap n i = (if n \<le> i then 0 else if i < 0 then n - 1 else i)"

text \<open>The trigger of slot \<open>i\<close> has not been consumed: its handle is still non-nil.\<close>

definition armed :: "state \<Rightarrow> int \<Rightarrow> bool" where
  "armed st i \<longleftrightarrow> 0 \<le> i \<and> i < int (length (imgLoadChans st)) \<and> imgLoadChans st ! nat i"

text \<open>The messages whose handling calls \<^verbatim>\<open>setImage\<close>.\<close>

fun switches :: "event \<Rightarrow> bool" where
  "switches (DrawChan f) = True"
| "switches PrevImg = True"
| "switches NextImg = True"
| "switches (PanStepChan p) = True"
| "switches _ = False"

text \<open>
  What a switch to an unloaded slot may change: the result is a state, and if the slot
  that became current is unloaded, then the state differs from the old one in \<open>current\<close>
  and in that slot's trigger handle only, and the only calls made are clearing the
  window, setting the loading title and firing that slot's trigger.
\<close>

definition unloaded_frame :: "state \<Rightarrow> effect list \<times> (fault + state) \<Rightarrow> bool" where
  "unloaded_frame st res \<longleftrightarrow>
     (case res of
        (es, Inl f) \<Rightarrow> False
      | (es, Inr st') \<Rightarrow>
          (imgs st ! nat (current st') = None \<longrightarrow>
             origin st' = origin st \<and>
             st' = st\<lparr>current := current st',
                      imgLoadChans := (imgLoadChans st)[nat (current st') := False]\<rparr> \<and>
             (\<forall>e \<in> set es. e = ClearAll
                 \<or> e = NameSet (names st ! nat (current st') @ '' - Loading...'')
                 \<or> e = Fire (current st'))))"

text \<open>
  The stored origin is settled for a window size: if the current slot is loaded,
  clamping the stored origin for that slot's image and that window size changes nothing.
\<close>

definition origin_fixed :: "window \<Rightarrow> state \<Rightarrow> bool" where
  "origin_fixed win st \<longleftrightarrow>
     (case imgs st ! nat (current st) of
        None \<Rightarrow> True
      | Some v \<Rightarrow> originTrans (origin st) win (Some v) = origin st)"

text \<open>A load completion for the slot that is current when it is handled.\<close>

fun completes_current :: "event \<Rightarrow> state \<Rightarrow> bool" where
  "completes_current (ImgChan m) st = (index m = current st)"
| "completes_current _ st = False"

text \<open>
  What the messages of a run tell about the stored origin, for a window size \<open>win\<close> and
  a flag \<open>b\<close> that says whether the origin is known to be settled at the start. A
  switching message makes it known exactly when it is handled under \<open>win\<close>; a load
  completion for the current slot makes it unknown; every other message leaves the
  flag as it is. A run that faults has no final state.
\<close>

fun settled :: "window \<Rightarrow> (window \<times> event) list \<Rightarrow> state \<Rightarrow> bool \<Rightarrow> bool" where
  "settled win [] st b = b"
| "settled win (we # rest) st b =
     (case snd (step (fst we) (snd we) st) of
        Inl f \<Rightarrow> False
      | Inr st1 \<Rightarrow>
          settled win rest st1
            (if switches (snd we) then fst we = win
             else if completes_current (snd we) st then False
             else b))"

subsection \<open>A concrete session\<close>

text \<open>
  Two images, a 400x300 window. Image 0 (800x600) is loaded, the view is moved by
  (1000, 1000), then the user asks for the next image, which is not loaded yet.
\<close>

definition demo_win :: window where
  "demo_win = \<lparr>Width = 400, Height = 300\<rparr>"

definition demo_img0 :: vimage where
  "demo_img0 = \<lparr>name = ''a'', Bounds = \<lparr>Min_pt = \<lparr>X = 0, Y = 0\<rparr>, Max_pt = \<lparr>X = 800, Y = 600\<rparr>\<rparr>\<rparr>"

definition demo_img1 :: vimage where
  "demo_img1 = \<lparr>name = ''b'', Bounds = \<lparr>Min_pt = \<lparr>X = 0, Y = 0\<rparr>, Max_pt = \<lparr>X = 100, Y = 100\<rparr>\<rparr>\<rparr>"

definition demo_shift :: "point \<Rightarrow> point" where
  "demo_shift p = \<lparr>X = X p + 1000, Y = Y p + 1000\<rparr>"

definition demo_init :: state where
  "demo_init = canvas_init [''a'', ''b''] 2"

definition demo_events :: "(window \<times> event) list" where
  "demo_events =
     [(demo_win, ImgChan \<lparr>img = Some demo_img0, index = 0\<rparr>),
      (demo_win, DrawChan demo_shift),
      (demo_win, NextImg)]"

text \<open>The state with image 0 loaded and shown at (400, 300).\<close>

definition demo_shown :: state where
  "demo_shown =
     \<lparr>names = [''a'', ''b''], imgs = [Some demo_img0, None],
      imgLoadChans = [True, True], current = 0, origin = \<lparr>X = 400, Y = 300\<rparr>,
      panStart = \<lparr>X = 0, Y = 0\<rparr>, panOrigin = \<lparr>X = 0, Y = 0\<rparr>\<rparr>"

text \<open>The state after \<open>demo_events\<close>: slot 1 is current and unloaded.\<close>

definition demo_stale :: state where
  "demo_stale =
     \<lparr>names = [''a'', ''b''], imgs = [Some demo_img0, None],
      imgLoadChans = [True, False], current = 1, origin = \<lparr>X = 400, Y = 300\<rparr>,
      panStart = \<lparr>X = 0, Y = 0\<rparr>, panOrigin = \<lparr>X = 0, Y = 0\<rparr>\<rparr>"

text \<open>The same once image 1 (100x100) has arrived.\<close>

definition demo_stale_loaded :: state where
  "demo_stale_loaded = demo_stale\<lparr>imgs := [Some demo_img0, Some demo_img1]\<rparr>"

text \<open>
  Image 0 arrives, the view is moved, a pan gesture starts and ends (the window is
  resized meanwhile), and image 1 arrives while image 0 is shown.
\<close>

definition demo_calm :: "(window \<times> event) list" where
  "demo_calm =
     [(demo_win, ImgChan \<lparr>img = Some demo_img0, index = 0\<rparr>),
      (demo_win, DrawChan demo_shift),
      (demo_win, PanStartChan \<lparr>X = 5, Y = 5\<rparr>),
      (\<lparr>Width = 600, Height = 500\<rparr>, PanEndChan),
      (demo_win, ImgChan \<lparr>img = Some demo_img1, index = 1\<rparr>)]"

text \<open>Three slots, for the wraparound in both directions.\<close>

definition demo_init3 :: state where
  "demo_init3 = canvas_init [''a'', ''b'', ''c''] 3"

section \<open>The Geometry Transform\<close>

lemma min_max_go_idem:
  "min_go u (max_go (min_go u (max_go p 0)) 0) = min_go u (max_go p 0)"
  by (auto simp: min_go_def max_go_def word_sless_alt signed_eq_0_iff)

lemma originTrans_idem:
  "originTrans (originTrans p w im) w im = originTrans p w im"
  by (cases im) (simp_all add: originTrans_def Let_def min_max_go_idem)

lemma originTrans_X:
  "X (originTrans p win (Some v)) =
     (if Dx (Bounds v) <s Width win then 0
      else min_go (X (Min_pt (Bounds v)) + (Dx (Bounds v) - Width win)) (max_go (X p) 0))"
  by (simp add: originTrans_def Let_def)

lemma originTrans_Y:
  "Y (originTrans p win (Some v)) =
     (if Dy (Bounds v) <s Height win then 0
      else min_go (Y (Min_pt (Bounds v)) + (Dy (Bounds v) - Height win)) (max_go (Y p) 0))"
  by (simp add: originTrans_def Let_def)

text \<open>Arithmetic on 64-bit words is exact while the result fits.\<close>

lemma sint_diff_exact:
  fixes a b :: gint
  assumes "- (2 ^ 63) \<le> sint a - sint b" "sint a - sint b < 2 ^ 63"
  shows "sint (a - b) = sint a - sint b"
  using assms by (simp add: sint_word_diff signed_take_bit_int_eq_self)

lemma sint_add_exact:
  fixes a b :: gint
  assumes "- (2 ^ 63) \<le> sint a + sint b" "sint a + sint b < 2 ^ 63"
  shows "sint (a + b) = sint a + sint b"
  using assms by (simp add: sint_word_add signed_take_bit_int_eq_self)

lemma sint_bounds64:
  fixes a :: gint
  shows "- (2 ^ 63) \<le> sint a" "sint a < 2 ^ 63"
  using sint_ge [of a] sint_lt [of a] by simp_all

text \<open>One axis of the clamp, for a window size and image bounds that are not negative.\<close>

lemma range_axis:
  fixes ww mn mx p :: gint
  assumes "0 \<le>s ww" "0 \<le>s mn" "mn \<le>s mx"
  defines "r \<equiv> (if (mx - mn) <s ww then 0 else min_go (mn + ((mx - mn) - ww)) (max_go p 0))"
  shows "0 \<le> sint r \<and> sint r \<le> sint mn + max 0 (sint mx - sint mn - sint ww)"
proof -
  have w0: "0 \<le> sint ww" and a0: "0 \<le> sint mn" and ab: "sint mn \<le> sint mx"
    using assms by (simp_all add: word_sle_eq)
  have d: "sint (mx - mn) = sint mx - sint mn"
    using a0 ab sint_bounds64 [of mx] by (intro sint_diff_exact) linarith+
  have u: "mn + ((mx - mn) - ww) = mx - ww"
    by simp
  have su: "sint (mx - ww) = sint mx - sint ww"
    using w0 a0 ab sint_bounds64 [of mx] sint_bounds64 [of ww]
    by (intro sint_diff_exact) linarith+
  show ?thesis
  proof (cases "(mx - mn) <s ww")
    case True
    then have "r = 0" by (simp add: r_def)
    then show ?thesis using a0 by simp
  next
    case False
    then have ge: "sint ww \<le> sint mx - sint mn"
      using d by (simp add: word_sless_alt)
    have r: "r = min_go (mx - ww) (max_go p 0)"
      using False by (simp add: r_def)
    have "0 \<le> sint r \<and> sint r \<le> sint (mx - ww)"
      using su ge a0 unfolding r
      by (auto simp: min_go_def max_go_def word_sless_alt)
    then show ?thesis using su ge by simp
  qed
qed

lemma scenario_axis:
  fixes a :: gint
  assumes "0 \<le>s a" "a \<le>s m" "sint m < 1000" "sint m \<ge> 0"
  shows "min_go m (max_go (a + 1000) 0) = m"
proof -
  have a: "0 \<le> sint a" "sint a \<le> 1000" using assms by (simp_all add: word_sle_eq)
  have "sint (a + 1000) = sint a + sint (1000 :: gint)"
    using a by (intro sint_add_exact) simp_all
  then have "sint (a + 1000) = sint a + 1000" by simp
  then show ?thesis using a assms(3,4)
    by (auto simp: min_go_def max_go_def word_sless_alt)
qed

text \<open>
  Claim C3, as amended. The clamp takes the image's minimum bound into the upper end of
  the range only, and lets the upper end win over the lower end 0. So the result lies
  within \<open>[0, Min + max 0 (image size - window size)]\<close> on each axis whenever the window
  size is not negative and the image bounds are well-formed with a minimum bound that
  is not negative. In the scenario (a 400x300 window, an 800x600 image at (0, 0)), an
  origin within the range moved by (1000, 1000) clamps to (400, 300).
\<close>

theorem clamp_range_amended:
  "(0 \<le>s Width win \<and> 0 \<le>s Height win \<and>
    0 \<le>s X (Min_pt (Bounds v)) \<and> X (Min_pt (Bounds v)) \<le>s X (Max_pt (Bounds v)) \<and>
    0 \<le>s Y (Min_pt (Bounds v)) \<and> Y (Min_pt (Bounds v)) \<le>s Y (Max_pt (Bounds v))
    \<longrightarrow> in_clamp_range (originTrans p win (Some v)) win (Bounds v)) \<and>
   (0 \<le>s X q \<and> X q \<le>s 400 \<and> 0 \<le>s Y q \<and> Y q \<le>s 300
    \<longrightarrow> originTrans \<lparr>X = X q + 1000, Y = Y q + 1000\<rparr> \<lparr>Width = 400, Height = 300\<rparr>
          (Some \<lparr>name = n, Bounds = \<lparr>Min_pt = \<lparr>X = 0, Y = 0\<rparr>, Max_pt = \<lparr>X = 800, Y = 600\<rparr>\<rparr>\<rparr>)
        = \<lparr>X = 400, Y = 300\<rparr>)"
proof (intro conjI impI)
  assume h: "0 \<le>s Width win \<and> 0 \<le>s Height win \<and>
    0 \<le>s X (Min_pt (Bounds v)) \<and> X (Min_pt (Bounds v)) \<le>s X (Max_pt (Bounds v)) \<and>
    0 \<le>s Y (Min_pt (Bounds v)) \<and> Y (Min_pt (Bounds v)) \<le>s Y (Max_pt (Bounds v))"
  show "in_clamp_range (originTrans p win (Some v)) win (Bounds v)"
    unfolding in_clamp_range_def originTrans_X originTrans_Y
    using range_axis [of "Width win" "X (Min_pt (Bounds v))" "X (Max_pt (Bounds v))" "X p"]
          range_axis [of "Height win" "Y (Min_pt (Bounds v))" "Y (Max_pt (Bounds v))" "Y p"] h
    unfolding Dx_def Dy_def by blast
next
  assume h: "0 \<le>s X q \<and> X q \<le>s 400 \<and> 0 \<le>s Y q \<and> Y q \<le>s 300"
  have x: "min_go 400 (max_go (X q + 1000) 0) = 400"
    using h by (intro scenario_axis) simp_all
  have y: "min_go 300 (max_go (Y q + 1000) 0) = 300"
    using h by (intro scenario_axis) simp_all
  show "originTrans \<lparr>X = X q + 1000, Y = Y q + 1000\<rparr> \<lparr>Width = 400, Height = 300\<rparr>
          (Some \<lparr>name = n, Bounds = \<lparr>Min_pt = \<lparr>X = 0, Y = 0\<rparr>, Max_pt = \<lparr>X = 800, Y = 600\<rparr>\<rparr>\<rparr>)
        = \<lparr>X = 400, Y = 300\<rparr>"
    by (simp add: originTrans_def Let_def Dx_def Dy_def x y word_sless_alt)
qed

text \<open>
  The amended property at an image with bounds (10, 20)-(810, 120) in a 400x300 window:
  the point (1000, 50) clamps to (410, 0), within the range; and the scenario itself.
\<close>

theorem clamp_range_amended_witness:
  "in_clamp_range (originTrans \<lparr>X = 1000, Y = 50\<rparr> \<lparr>Width = 400, Height = 300\<rparr>
       (Some \<lparr>name = ''a'', Bounds = \<lparr>Min_pt = \<lparr>X = 10, Y = 20\<rparr>, Max_pt = \<lparr>X = 810, Y = 120\<rparr>\<rparr>\<rparr>))
     \<lparr>Width = 400, Height = 300\<rparr> \<lparr>Min_pt = \<lparr>X = 10, Y = 20\<rparr>, Max_pt = \<lparr>X = 810, Y = 120\<rparr>\<rparr> \<and>
   originTrans \<lparr>X = 1000, Y = 50\<rparr> \<lparr>Width = 400, Height = 300\<rparr>
       (Some \<lparr>name = ''a'', Bounds = \<lparr>Min_pt = \<lparr>X = 10, Y = 20\<rparr>, Max_pt = \<lparr>X = 810, Y = 120\<rparr>\<rparr>\<rparr>)
     = \<lparr>X = 410, Y = 0\<rparr> \<and>
   originTrans \<lparr>X = 1000, Y = 1000\<rparr> \<lparr>Width = 400, Height = 300\<rparr>
       (Some \<lparr>name = ''a'', Bounds = \<lparr>Min_pt = \<lparr>X = 0, Y = 0\<rparr>, Max_pt = \<lparr>X = 800, Y = 600\<rparr>\<rparr>\<rparr>)
     = \<lparr>X = 400, Y = 300\<rparr>"
  using clamp_range_amended [of "\<lparr>Width = 400, Height = 300\<rparr>"
      "\<lparr>name = ''a'', Bounds = \<lparr>Min_pt = \<lparr>X = 10, Y = 20\<rparr>, Max_pt = \<lparr>X = 810, Y = 120\<rparr>\<rparr>\<rparr>"
      "\<lparr>X = 1000, Y = 50\<rparr>" "\<lparr>X = 0, Y = 0\<rparr>" "''a''"]
  by (simp add: word_sle_eq originTrans_def Let_def Dx_def Dy_def min_go_def max_go_def
        word_sless_alt)

text \<open>
  The claim as stated fails for an image whose minimum bound is negative. With bounds
  (-100, -100)-(-50, 0) in a 100x50 window the image is narrower than the window, so X is
  pinned to 0, above the upper end \<open>-100 + max 0 (50 - 100) = -100\<close>; and it is as high
  as the window, so Y is clamped to the upper end \<open>-100 + (100 - 50) = -50\<close>, below 0.
\<close>

theorem clamp_range_counterexample:
  "originTrans \<lparr>X = 7, Y = 7\<rparr> \<lparr>Width = 100, Height = 50\<rparr>
       (Some \<lparr>name = ''a'', Bounds = \<lparr>Min_pt = \<lparr>X = - 100, Y = - 100\<rparr>, Max_pt = \<lparr>X = - 50, Y = 0\<rparr>\<rparr>\<rparr>)
     = \<lparr>X = 0, Y = - 50\<rparr> \<and>
   \<not> in_clamp_range
       (originTrans \<lparr>X = 7, Y = 7\<rparr> \<lparr>Width = 100, Height = 50\<rparr>
         (Some \<lparr>name = ''a'', Bounds = \<lparr>Min_pt = \<lparr>X = - 100, Y = - 100\<rparr>, Max_pt = \<lparr>X = - 50, Y = 0\<rparr>\<rparr>\<rparr>))
       \<lparr>Width = 100, Height = 50\<rparr> \<lparr>Min_pt = \<lparr>X = - 100, Y = - 100\<rparr>, Max_pt = \<lparr>X = - 50, Y = 0\<rparr>\<rparr>"
  by (simp add: in_clamp_range_def originTrans_def Let_def Dx_def Dy_def min_go_def max_go_def
        word_sless_alt)

text \<open>
  Claim C4. The clamp is idempotent, for every point, window size and image, the nil
  image included.
\<close>

theorem clamp_idempotent:
  "originTrans (originTrans p w im) w im = originTrans p w im"
  by (cases im) (simp_all add: originTrans_def Let_def min_max_go_idem)

text \<open>
  Claim C5. An image strictly narrower than the window has the X coordinate of the
  result at 0 whatever the input, and an image strictly lower than the window has the
  Y coordinate at 0.
\<close>

theorem small_image_pinned:
  "(Dx (Bounds v) <s Width win \<longrightarrow> X (originTrans p win (Some v)) = 0) \<and>
   (Dy (Bounds v) <s Height win \<longrightarrow> Y (originTrans p win (Some v)) = 0)"
  by (simp add: originTrans_def Let_def)

theorem small_image_pinned_witness:
  "Dx (Bounds demo_img1) <s Width demo_win \<and>
   Dy (Bounds demo_img1) <s Height demo_win \<and>
   X (originTrans \<lparr>X = 55, Y = 66\<rparr> demo_win (Some demo_img1)) = 0 \<and>
   Y (originTrans \<lparr>X = 55, Y = 66\<rparr> demo_win (Some demo_img1)) = 0"
  using small_image_pinned [of demo_img1 demo_win "\<lparr>X = 55, Y = 66\<rparr>"]
  by (simp add: demo_img1_def demo_win_def Dx_def Dy_def word_sless_alt)

section \<open>The coordinator\<close>

subsection \<open>Well-formed states\<close>

lemma wrap_range: "0 < n \<Longrightarrow> 0 \<le> wrap n i \<and> wrap n i < n"
  by (simp add: wrap_def)

lemma wf_init: "0 < n \<Longrightarrow> n \<le> length ns \<Longrightarrow> wf_state (canvas_init ns n)"
  by (simp add: wf_state_def canvas_init_def)

text \<open>What \<^verbatim>\<open>setImage\<close> does in a well-formed state, by the state of the slot it settles on.\<close>

lemma setImage_unloaded:
  assumes "wf_state st" and k: "k = wrap (int (length (imgs st))) i"
    and "imgs st ! nat k = None"
  shows "setImage i pt win st =
     ((if current st \<noteq> k then [ClearAll] else [])
        @ [NameSet (names st ! nat k @ '' - Loading...'')]
        @ (if imgLoadChans st ! nat k then [Fire k] else []),
      Inr (st\<lparr>current := k, imgLoadChans := (imgLoadChans st)[nat k := False]\<rparr>))"
proof -
  have r: "0 \<le> k" "k < int (length (imgs st))"
    using assms(1) wrap_range [of "int (length (imgs st))" i] by (simp_all add: wf_state_def k)
  have n: "(if (if int (length (imgs st)) \<le> i then 0 else i) < 0 then int (length (imgs st)) - 1
        else (if int (length (imgs st)) \<le> i then 0 else i)) = k"
    by (simp add: k wrap_def)
  have id: "\<not> imgLoadChans st ! nat k \<Longrightarrow> (imgLoadChans st)[nat k := False] = imgLoadChans st"
    by (metis list_update_id)
  show ?thesis
    using assms(1,3) r
    by (simp add: setImage_def Let_def n wf_state_def id)
qed

lemma setImage_loaded:
  assumes "wf_state st" and k: "k = wrap (int (length (imgs st))) i"
    and "imgs st ! nat k = Some v"
  shows "setImage i pt win st =
     ((if current st \<noteq> k then [ClearAll] else [])
        @ show_img win (Some v) (originTrans pt win (Some v)),
      Inr (st\<lparr>current := k, origin := originTrans pt win (Some v)\<rparr>))"
proof -
  have r: "0 \<le> k" "k < int (length (imgs st))"
    using assms(1) wrap_range [of "int (length (imgs st))" i] by (simp_all add: wf_state_def k)
  have n: "(if (if int (length (imgs st)) \<le> i then 0 else i) < 0 then int (length (imgs st)) - 1
        else (if int (length (imgs st)) \<le> i then 0 else i)) = k"
    by (simp add: k wrap_def)
  show ?thesis
    using assms(1,3) r
    by (simp add: setImage_def Let_def n wf_state_def)
qed

lemma wf_setImage:
  assumes "wf_state st" "setImage i pt win st = (es, Inr st')"
  shows "wf_state st'"
proof (cases "imgs st ! nat (wrap (int (length (imgs st))) i)")
  case None
  show ?thesis
    using assms setImage_unloaded [OF assms(1) refl None, of pt win]
      wrap_range [of "int (length (imgs st))" i] by (auto simp: wf_state_def)
next
  case (Some v)
  show ?thesis
    using assms setImage_loaded [OF assms(1) refl Some, of pt win]
      wrap_range [of "int (length (imgs st))" i] by (auto simp: wf_state_def)
qed

lemma wf_step:
  assumes "wf_state st" "step win ev st = (es, Inr st')"
  shows "wf_state st'"
proof (cases ev)
  case (ImgChan m)
  then show ?thesis using assms by (auto simp: wf_state_def Let_def split: if_splits)
next
  case ResizeToImageChan
  then show ?thesis using assms by (auto split: if_splits option.splits)
next
  case (PanStartChan p)
  then show ?thesis using assms by (auto simp: wf_state_def)
next
  case PanEndChan
  then show ?thesis using assms by (auto simp: wf_state_def)
qed (use assms wf_setImage in \<open>auto simp: Let_def\<close>)

lemma wf_run:
  "wf_state st \<Longrightarrow> run evs st = (es, Inr st') \<Longrightarrow> wf_state st'"
proof (induction evs arbitrary: st es)
  case Nil
  then show ?case by simp
next
  case (Cons we evs)
  then show ?case
    by (auto split: prod.splits sum.splits dest: wf_step)
qed

text \<open>The concrete session, evaluated.\<close>

lemma demo_run:
  "run demo_events demo_init =
     ([Paint demo_img0 \<lparr>Min_pt = \<lparr>X = 0, Y = 0\<rparr>, Max_pt = \<lparr>X = 400, Y = 300\<rparr>\<rparr>,
       NameSet ''a (800x600)'',
       Paint demo_img0 \<lparr>Min_pt = \<lparr>X = 400, Y = 300\<rparr>, Max_pt = \<lparr>X = 800, Y = 600\<rparr>\<rparr>,
       NameSet ''a (800x600)'',
       ClearAll, NameSet ''b - Loading...'', Fire 1],
      Inr demo_stale)"
  by code_simp

lemma demo_run_loaded:
  "run (demo_events @ [(demo_win, ImgChan \<lparr>img = Some demo_img1, index = 1\<rparr>)]) demo_init =
     ([Paint demo_img0 \<lparr>Min_pt = \<lparr>X = 0, Y = 0\<rparr>, Max_pt = \<lparr>X = 400, Y = 300\<rparr>\<rparr>,
       NameSet ''a (800x600)'',
       Paint demo_img0 \<lparr>Min_pt = \<lparr>X = 400, Y = 300\<rparr>, Max_pt = \<lparr>X = 800, Y = 600\<rparr>\<rparr>,
       NameSet ''a (800x600)'',
       ClearAll, NameSet ''b - Loading...'', Fire 1,
       Paint demo_img1 \<lparr>Min_pt = \<lparr>X = 0, Y = 0\<rparr>, Max_pt = \<lparr>X = 400, Y = 300\<rparr>\<rparr>,
       NameSet ''b (100x100)''],
      Inr demo_stale_loaded)"
  by code_simp

lemma wf_demo: "wf_state demo_init" "wf_state demo_shown" "wf_state demo_stale"
  "wf_state demo_stale_loaded"
  by code_simp+

subsection \<open>The stored origin\<close>

lemma switch_clamps:
  assumes "wf_state st" "switches ev"
  shows "\<exists>es st'. step win ev st = (es, Inr st') \<and>
           (\<forall>v. imgs st' ! nat (current st') = Some v \<longrightarrow>
                originTrans (origin st') win (Some v) = origin st')"
proof -
  have a: "\<exists>es st'. setImage i pt win st = (es, Inr st') \<and>
           (\<forall>v. imgs st' ! nat (current st') = Some v \<longrightarrow>
                originTrans (origin st') win (Some v) = origin st')" for i pt
  proof (cases "imgs st ! nat (wrap (int (length (imgs st))) i)")
    case None
    show ?thesis
      unfolding setImage_unloaded [OF assms(1) refl None] using None by simp
  next
    case (Some v)
    show ?thesis
      unfolding setImage_loaded [OF assms(1) refl Some] using Some
      by (simp add: originTrans_idem)
  qed
  show ?thesis
    using assms(2) a by (cases ev) (simp_all add: Let_def)
qed

lemma fixed_step_switch:
  assumes "wf_state st" "switches ev" "step win ev st = (es, Inr st')"
  shows "origin_fixed win st'"
  using switch_clamps [OF assms(1,2), of win] assms(3)
  by (auto simp: origin_fixed_def split: option.splits)

lemma fixed_step_other:
  assumes "wf_state st" "\<not> switches ev" "\<not> completes_current ev st"
    and "step w ev st = (es, Inr st')" "origin_fixed win st"
  shows "origin_fixed win st'"
proof (cases ev)
  case (ImgChan m)
  have ne: "nat (index m) \<noteq> nat (current st)"
    if "0 \<le> index m" using that assms(1,3) ImgChan
    by (simp add: wf_state_def eq_nat_nat_iff)
  show ?thesis
    using assms ImgChan ne
    by (auto simp: origin_fixed_def Let_def split: if_splits option.splits)
next
  case ResizeToImageChan
  then show ?thesis using assms by (auto split: if_splits option.splits)
next
  case (PanStartChan p)
  then show ?thesis using assms by (auto simp: origin_fixed_def split: option.splits)
next
  case PanEndChan
  then show ?thesis using assms by (auto simp: origin_fixed_def split: option.splits)
qed (use assms in simp_all)

lemma fixed_run:
  "wf_state st \<Longrightarrow> (b \<longrightarrow> origin_fixed win st) \<Longrightarrow> run evs st = (es, Inr st')
     \<Longrightarrow> settled win evs st b \<Longrightarrow> origin_fixed win st'"
proof (induction evs arbitrary: st b es)
  case Nil
  then show ?case by simp
next
  case (Cons we evs)
  obtain e1 r1 where s: "step (fst we) (snd we) st = (e1, r1)"
    by (cases "step (fst we) (snd we) st")
  obtain st1 where r1: "r1 = Inr st1"
    using Cons.prems(3) s by (cases r1) auto
  obtain e2 where t: "run evs st1 = (e2, Inr st')"
    using Cons.prems(3) s r1 by (cases "run evs st1") auto
  let ?b = "if switches (snd we) then fst we = win
            else if completes_current (snd we) st then False else b"
  have w1: "wf_state st1"
    using wf_step [OF Cons.prems(1) s [unfolded r1]] .
  have g: "settled win evs st1 ?b"
    using Cons.prems(4) s r1 by simp
  have k: "?b \<longrightarrow> origin_fixed win st1"
  proof (cases "switches (snd we)")
    case True
    then show ?thesis
      using fixed_step_switch [OF Cons.prems(1) True, of "fst we"] s r1 by auto
  next
    case False
    then show ?thesis
      using fixed_step_other [OF Cons.prems(1) False _ s [unfolded r1], of win] Cons.prems(2)
      by auto
  qed
  show ?case
    using Cons.IH [OF w1 k t g] .
qed

text \<open>
  Claim C1, as amended. In every state reached by a run without a fault, from the
  initial state or from any well-formed state: if the current slot is loaded, and the
  last message that was a switching message (a view-transform, previous, next or
  pan-step request) or a load completion for the then current slot was a switching
  message handled under the window size \<open>win\<close>, then the stored origin is a fixed point
  of the clamp for the current slot's image and \<open>win\<close>. In particular this holds
  right after a switching message, which a well-formed state handles without a fault.
\<close>

theorem origin_fixed_invariant:
  "(wf_state st \<and> (b \<longrightarrow> origin_fixed win st) \<and> run evs st = (es, Inr st') \<and>
      settled win evs st b \<longrightarrow> origin_fixed win st') \<and>
   (0 < n \<and> n \<le> length ns \<and> run evs (canvas_init ns n) = (es, Inr st') \<and>
      settled win evs (canvas_init ns n) True \<longrightarrow> origin_fixed win st') \<and>
   (wf_state st \<and> switches ev \<longrightarrow>
      (\<exists>es1 st1. step win ev st = (es1, Inr st1) \<and> origin_fixed win st1))"
proof (intro conjI impI)
  show "origin_fixed win st'"
    if "wf_state st \<and> (b \<longrightarrow> origin_fixed win st) \<and> run evs st = (es, Inr st') \<and>
      settled win evs st b"
    using that fixed_run [of st b win evs es st'] by blast
  show "origin_fixed win st'"
    if h: "0 < n \<and> n \<le> length ns \<and> run evs (canvas_init ns n) = (es, Inr st') \<and>
      settled win evs (canvas_init ns n) True"
  proof -
    have w: "wf_state (canvas_init ns n)" using h wf_init by blast
    have o: "origin_fixed win (canvas_init ns n)"
      using h by (simp add: origin_fixed_def canvas_init_def)
    show ?thesis using fixed_run [OF w _ _ _, of True win evs es st'] o h by blast
  qed
  show "\<exists>es1 st1. step win ev st = (es1, Inr st1) \<and> origin_fixed win st1"
    if h: "wf_state st \<and> switches ev"
  proof -
    from h switch_clamps [of st ev win] obtain es1 st1 where
      s: "step win ev st = (es1, Inr st1)" by blast
    then show ?thesis using fixed_step_switch [of st ev win es1 st1] h by blast
  qed
qed

text \<open>
  In \<open>demo_calm\<close> the last such message is the view-transform request: the stored origin
  (400, 300) is still a fixed point of the clamp after the pan gesture and the arrival
  of image 1.
\<close>

theorem origin_fixed_invariant_witness:
  "0 < (2::nat) \<and> 2 \<le> length [''a'', ''b''] \<and>
   settled demo_win demo_calm (canvas_init [''a'', ''b''] 2) True \<and>
   snd (run demo_calm (canvas_init [''a'', ''b''] 2))
     = Inr (demo_shown\<lparr>imgs := [Some demo_img0, Some demo_img1],
                        panStart := \<lparr>X = 0, Y = 0\<rparr>, panOrigin := \<lparr>X = 0, Y = 0\<rparr>\<rparr>) \<and>
   imgs (demo_shown\<lparr>imgs := [Some demo_img0, Some demo_img1]\<rparr>)
       ! nat (current demo_shown) = Some demo_img0 \<and>
   origin demo_shown = \<lparr>X = 400, Y = 300\<rparr> \<and>
   originTrans (origin demo_shown) demo_win (Some demo_img0) = origin demo_shown \<and>
   origin_fixed demo_win
     (demo_shown\<lparr>imgs := [Some demo_img0, Some demo_img1],
                  panStart := \<lparr>X = 0, Y = 0\<rparr>, panOrigin := \<lparr>X = 0, Y = 0\<rparr>\<rparr>)"
proof -
  have g: "settled demo_win demo_calm (canvas_init [''a'', ''b''] 2) True" by code_simp
  obtain es where r: "run demo_calm (canvas_init [''a'', ''b''] 2)
     = (es, Inr (demo_shown\<lparr>imgs := [Some demo_img0, Some demo_img1],
                        panStart := \<lparr>X = 0, Y = 0\<rparr>, panOrigin := \<lparr>X = 0, Y = 0\<rparr>\<rparr>))"
  proof -
    have "snd (run demo_calm (canvas_init [''a'', ''b''] 2))
     = Inr (demo_shown\<lparr>imgs := [Some demo_img0, Some demo_img1],
                        panStart := \<lparr>X = 0, Y = 0\<rparr>, panOrigin := \<lparr>X = 0, Y = 0\<rparr>\<rparr>)"
      by code_simp
    then show ?thesis using that by (cases "run demo_calm (canvas_init [''a'', ''b''] 2)") simp
  qed
  have i: "imgs (demo_shown\<lparr>imgs := [Some demo_img0, Some demo_img1]\<rparr>)
       ! nat (current demo_shown) = Some demo_img0" by code_simp
  have o: "origin demo_shown = \<lparr>X = 400, Y = 300\<rparr>" by code_simp
  have f: "originTrans (origin demo_shown) demo_win (Some demo_img0) = origin demo_shown"
    by code_simp
  have "origin_fixed demo_win
     (demo_shown\<lparr>imgs := [Some demo_img0, Some demo_img1],
                  panStart := \<lparr>X = 0, Y = 0\<rparr>, panOrigin := \<lparr>X = 0, Y = 0\<rparr>\<rparr>)"
    using origin_fixed_invariant [where n = 2 and ns = "[''a'', ''b'']" and evs = demo_calm
        and win = demo_win and es = es
        and st' = "demo_shown\<lparr>imgs := [Some demo_img0, Some demo_img1],
                  panStart := \<lparr>X = 0, Y = 0\<rparr>, panOrigin := \<lparr>X = 0, Y = 0\<rparr>\<rparr>"] g r
    by simp
  then show ?thesis using g r i o f by simp
qed

text \<open>
  The claim as stated fails after a switch to an unloaded slot. After \<open>demo_events\<close> slot 1
  is current and unloaded and the stored origin is still (400, 300), the anchor of
  image 0, while the clamp for an absent image is (0, 0). When image 1 (100x100) then
  arrives, the stored origin is still (400, 300) and the clamp for image 1 is (0, 0).
  And the window geometry belongs to the window: with image 0 shown at (400, 300) in
  the 400x300 window, the clamp for a window grown to 600x500 is (200, 100).
\<close>

theorem origin_invariant_counterexample:
  "snd (run demo_events demo_init) = Inr demo_stale \<and>
   current demo_stale = 1 \<and>
   imgs demo_stale ! nat (current demo_stale) = None \<and>
   origin demo_stale = \<lparr>X = 400, Y = 300\<rparr> \<and>
   originTrans (origin demo_stale) demo_win (imgs demo_stale ! nat (current demo_stale))
     = \<lparr>X = 0, Y = 0\<rparr> \<and>
   snd (run (demo_events @ [(demo_win, ImgChan \<lparr>img = Some demo_img1, index = 1\<rparr>)]) demo_init)
     = Inr demo_stale_loaded \<and>
   imgs demo_stale_loaded ! nat (current demo_stale_loaded) = Some demo_img1 \<and>
   origin demo_stale_loaded = \<lparr>X = 400, Y = 300\<rparr> \<and>
   originTrans (origin demo_stale_loaded) demo_win
       (imgs demo_stale_loaded ! nat (current demo_stale_loaded))
     = \<lparr>X = 0, Y = 0\<rparr> \<and>
   snd (run [(demo_win, ImgChan \<lparr>img = Some demo_img0, index = 0\<rparr>),
             (demo_win, DrawChan demo_shift)] demo_init) = Inr demo_shown \<and>
   imgs demo_shown ! nat (current demo_shown) = Some demo_img0 \<and>
   origin demo_shown = \<lparr>X = 400, Y = 300\<rparr> \<and>
   originTrans (origin demo_shown) \<lparr>Width = 600, Height = 500\<rparr>
       (imgs demo_shown ! nat (current demo_shown))
     = \<lparr>X = 200, Y = 100\<rparr>"
  by code_simp

subsection \<open>Faults\<close>

text \<open>
  Claim C2. A resize-to-image request handled while the current slot is unloaded calls
  \<^verbatim>\<open>imgs[current].Bounds()\<close> on a nil pointer: in the initial state of a coordinator with
  at least one slot, the step is a nil dereference. \<^verbatim>\<open>show\<close> and \<^verbatim>\<open>originTrans\<close> test for
  nil first; this path does not.
\<close>

theorem resize_unloaded_faults:
  "step win ResizeToImageChan (canvas_init ns (Suc n)) = ([], Inl NilDeref)"
  by (simp add: canvas_init_def)

subsection \<open>Navigation\<close>

text \<open>
  Claim C6. In a well-formed state (at least one slot, \<open>current\<close> a slot index), a Next
  request at the last slot makes slot 0 current and elsewhere the following slot; a
  Previous request at slot 0 makes the last slot current and elsewhere the preceding
  slot. Neither faults.
\<close>

theorem navigation_wraps:
  assumes "wf_state st"
  shows "(\<exists>es st'. step win NextImg st = (es, Inr st') \<and>
            current st' = (if current st = int (length (imgs st)) - 1 then 0 else current st + 1)) \<and>
         (\<exists>es st'. step win PrevImg st = (es, Inr st') \<and>
            current st' = (if current st = 0 then int (length (imgs st)) - 1 else current st - 1))"
proof -
  have a: "\<exists>es st'. setImage i \<lparr>X = 0, Y = 0\<rparr> win st = (es, Inr st') \<and>
             current st' = wrap (int (length (imgs st))) i" for i
  proof (cases "imgs st ! nat (wrap (int (length (imgs st))) i)")
    case None
    show ?thesis using setImage_unloaded [OF assms refl None] by simp
  next
    case (Some v)
    show ?thesis using setImage_loaded [OF assms refl Some] by simp
  qed
  have n: "wrap (int (length (imgs st))) (current st + 1) =
             (if current st = int (length (imgs st)) - 1 then 0 else current st + 1)"
    using assms by (auto simp: wrap_def wf_state_def)
  have p: "wrap (int (length (imgs st))) (current st - 1) =
             (if current st = 0 then int (length (imgs st)) - 1 else current st - 1)"
    using assms by (auto simp: wrap_def wf_state_def)
  show ?thesis
    using a [of "current st + 1"] a [of "current st - 1"] by (simp add: n p)
qed

theorem navigation_wraps_witness:
  "wf_state demo_init3 \<and> current demo_init3 = 0 \<and> int (length (imgs demo_init3)) = 3 \<and>
   snd (step demo_win PrevImg demo_init3)
     = Inr (demo_init3\<lparr>current := 2, imgLoadChans := [True, True, False]\<rparr>) \<and>
   wf_state (demo_init3\<lparr>current := 2, imgLoadChans := [True, True, False]\<rparr>) \<and>
   snd (step demo_win NextImg (demo_init3\<lparr>current := 2, imgLoadChans := [True, True, False]\<rparr>))
     = Inr (demo_init3\<lparr>current := 0, imgLoadChans := [False, True, False]\<rparr>) \<and>
   snd (step demo_win NextImg demo_init3)
     = Inr (demo_init3\<lparr>current := 1, imgLoadChans := [True, False, True]\<rparr>)"
proof -
  have w: "wf_state demo_init3" by code_simp
  have w2: "wf_state (demo_init3\<lparr>current := 2, imgLoadChans := [True, True, False]\<rparr>)"
    by code_simp
  have a: "current demo_init3 = 0" "int (length (imgs demo_init3)) = 3" by code_simp+
  have p: "snd (step demo_win PrevImg demo_init3)
     = Inr (demo_init3\<lparr>current := 2, imgLoadChans := [True, True, False]\<rparr>)" by code_simp
  have n: "snd (step demo_win NextImg (demo_init3\<lparr>current := 2, imgLoadChans := [True, True, False]\<rparr>))
     = Inr (demo_init3\<lparr>current := 0, imgLoadChans := [False, True, False]\<rparr>)" by code_simp
  have m: "snd (step demo_win NextImg demo_init3)
     = Inr (demo_init3\<lparr>current := 1, imgLoadChans := [True, False, True]\<rparr>)" by code_simp
  show ?thesis
    using navigation_wraps [OF w, of demo_win] navigation_wraps [OF w2, of demo_win]
      w w2 a p n m by simp
qed

subsection \<open>Load triggers\<close>

lemma count_show_img: "count_list (show_img win im p) (Fire j) = 0"
  by (cases im) (simp_all add: show_img_def Let_def)

lemma setImage_result:
  assumes "setImage i pt win st = (es, Inr st')"
  shows "\<exists>k. 0 \<le> k \<and> k < int (length (imgs st)) \<and>
     ((imgs st ! nat k = None \<and> k < int (length (imgLoadChans st)) \<and>
        st' = st\<lparr>current := k, imgLoadChans := (imgLoadChans st)[nat k := False]\<rparr> \<and>
        count_list es (Fire j) = (if j = k \<and> imgLoadChans st ! nat k then 1 else 0)) \<or>
      (\<exists>v. imgs st ! nat k = Some v \<and>
        st' = st\<lparr>current := k, origin := originTrans pt win (Some v)\<rparr> \<and>
        count_list es (Fire j) = 0))"
proof -
  define k where "k = (if (if int (length (imgs st)) \<le> i then 0 else i) < 0
                       then int (length (imgs st)) - 1
                       else (if int (length (imgs st)) \<le> i then 0 else i))"
  have r: "0 \<le> k \<and> k < int (length (imgs st))"
    using assms unfolding setImage_def Let_def k_def [symmetric]
    by (simp split: if_splits)
  show ?thesis
  proof (cases "imgs st ! nat k")
    case None
    have id: "\<not> imgLoadChans st ! nat k \<Longrightarrow> (imgLoadChans st)[nat k := False] = imgLoadChans st"
      by (metis list_update_id)
    have "k < int (length (imgLoadChans st)) \<and>
        st' = st\<lparr>current := k, imgLoadChans := (imgLoadChans st)[nat k := False]\<rparr> \<and>
        count_list es (Fire j) = (if j = k \<and> imgLoadChans st ! nat k then 1 else 0)"
      using assms r None unfolding setImage_def Let_def k_def [symmetric]
      by (auto simp: id split: if_splits)
    with r None show ?thesis by blast
  next
    case (Some v)
    have "st' = st\<lparr>current := k, origin := originTrans pt win (Some v)\<rparr> \<and>
        count_list es (Fire j) = 0"
      using assms r Some unfolding setImage_def Let_def k_def [symmetric]
      by (auto simp: count_show_img split: if_splits)
    with r Some show ?thesis by blast
  qed
qed

lemma armed_update:
  assumes "0 \<le> k" "0 \<le> j"
  shows "armed (st\<lparr>current := c, imgLoadChans := (imgLoadChans st)[nat k := False]\<rparr>) j
           \<longleftrightarrow> armed st j \<and> j \<noteq> k"
proof (cases "k = j")
  case True
  then show ?thesis using assms by (auto simp: armed_def)
next
  case False
  then have "nat k \<noteq> nat j" using assms by simp
  then show ?thesis using False by (simp add: armed_def)
qed

lemma fire_setImage:
  assumes "setImage i pt win st = (es, r)"
  shows "count_list es (Fire j) \<le> (if armed st j then 1 else 0) \<and>
         (\<forall>st'. r = Inr st' \<longrightarrow> armed st' j \<longrightarrow> armed st j \<and> count_list es (Fire j) = 0)"
proof (cases r)
  case (Inl f)
  have "count_list es (Fire j) = 0"
    using assms Inl unfolding setImage_def Let_def
    by (auto split: if_splits option.splits)
  then show ?thesis using Inl by simp
next
  case (Inr st')
  from setImage_result [OF assms [unfolded Inr], of j]
  obtain k where k: "0 \<le> k" "k < int (length (imgs st))"
    and d: "(imgs st ! nat k = None \<and> k < int (length (imgLoadChans st)) \<and>
        st' = st\<lparr>current := k, imgLoadChans := (imgLoadChans st)[nat k := False]\<rparr> \<and>
        count_list es (Fire j) = (if j = k \<and> imgLoadChans st ! nat k then 1 else 0)) \<or>
      (\<exists>v. imgs st ! nat k = Some v \<and>
        st' = st\<lparr>current := k, origin := originTrans pt win (Some v)\<rparr> \<and>
        count_list es (Fire j) = 0)"
    by blast
  from d show ?thesis
  proof
    assume a: "imgs st ! nat k = None \<and> k < int (length (imgLoadChans st)) \<and>
        st' = st\<lparr>current := k, imgLoadChans := (imgLoadChans st)[nat k := False]\<rparr> \<and>
        count_list es (Fire j) = (if j = k \<and> imgLoadChans st ! nat k then 1 else 0)"
    show ?thesis
    proof (cases "0 \<le> j")
      case True
      then show ?thesis
        using a k Inr armed_update [OF k(1) True, of st k]
        by (auto simp: armed_def)
    next
      case False
      then show ?thesis using a k Inr by (auto simp: armed_def)
    qed
  next
    assume "\<exists>v. imgs st ! nat k = Some v \<and>
        st' = st\<lparr>current := k, origin := originTrans pt win (Some v)\<rparr> \<and>
        count_list es (Fire j) = 0"
    then show ?thesis using Inr by (auto simp: armed_def)
  qed
qed

lemma fire_setImage_exact:
  assumes "setImage i pt win st = (es, Inr st')" "armed st j"
  shows "count_list es (Fire j) = (if armed st' j then 0 else 1)"
proof -
  have j: "0 \<le> j" using assms(2) by (simp add: armed_def)
  from setImage_result [OF assms(1), of j]
  obtain k where k: "0 \<le> k" "k < int (length (imgs st))"
    and d: "(imgs st ! nat k = None \<and> k < int (length (imgLoadChans st)) \<and>
        st' = st\<lparr>current := k, imgLoadChans := (imgLoadChans st)[nat k := False]\<rparr> \<and>
        count_list es (Fire j) = (if j = k \<and> imgLoadChans st ! nat k then 1 else 0)) \<or>
      (\<exists>v. imgs st ! nat k = Some v \<and>
        st' = st\<lparr>current := k, origin := originTrans pt win (Some v)\<rparr> \<and>
        count_list es (Fire j) = 0)"
    by blast
  from d show ?thesis
  proof
    assume a: "imgs st ! nat k = None \<and> k < int (length (imgLoadChans st)) \<and>
        st' = st\<lparr>current := k, imgLoadChans := (imgLoadChans st)[nat k := False]\<rparr> \<and>
        count_list es (Fire j) = (if j = k \<and> imgLoadChans st ! nat k then 1 else 0)"
    then show ?thesis
      using assms(2) armed_update [OF k(1) j, of st k] by (auto simp: armed_def)
  next
    assume "\<exists>v. imgs st ! nat k = Some v \<and>
        st' = st\<lparr>current := k, origin := originTrans pt win (Some v)\<rparr> \<and>
        count_list es (Fire j) = 0"
    then show ?thesis using assms(2) by (auto simp: armed_def)
  qed
qed

lemma fire_step:
  assumes "step win ev st = (es, r)"
  shows "count_list es (Fire j) \<le> (if armed st j then 1 else 0) \<and>
         (\<forall>st'. r = Inr st' \<longrightarrow> armed st' j \<longrightarrow> armed st j \<and> count_list es (Fire j) = 0)"
proof (cases ev)
  case (ImgChan m)
  then show ?thesis using assms
    by (auto simp: Let_def armed_def count_show_img split: if_splits)
next
  case ResizeToImageChan
  then show ?thesis using assms by (auto simp: armed_def split: if_splits option.splits)
next
  case (PanStartChan p)
  then show ?thesis using assms by (auto simp: armed_def)
next
  case PanEndChan
  then show ?thesis using assms by (auto simp: armed_def)
qed (use assms fire_setImage in \<open>simp_all add: Let_def\<close>)

lemma fire_run:
  "count_list (fst (run evs st)) (Fire j) \<le> (if armed st j then 1 else 0)"
proof (induction evs arbitrary: st)
  case Nil
  then show ?case by simp
next
  case (Cons we evs)
  obtain es r where s: "step (fst we) (snd we) st = (es, r)"
    by (cases "step (fst we) (snd we) st") 
  show ?case
  proof (cases r)
    case (Inl f)
    then show ?thesis using s fire_step [OF s, of j] by simp
  next
    case (Inr st1)
    obtain es' r' where t: "run evs st1 = (es', r')"
      by (cases "run evs st1")
    have "count_list es' (Fire j) \<le> (if armed st1 j then 1 else 0)"
      using Cons.IH [of st1] t by simp
    then show ?thesis
      using s t Inr fire_step [OF s, of j] by (auto split: if_splits)
  qed
qed

lemma fire_step_exact:
  assumes "step win ev st = (es, Inr st')" "armed st j"
  shows "count_list es (Fire j) = (if armed st' j then 0 else 1)"
proof (cases ev)
  case (ImgChan m)
  then show ?thesis using assms
    by (auto simp: Let_def armed_def count_show_img split: if_splits)
next
  case ResizeToImageChan
  then show ?thesis using assms by (auto simp: armed_def split: if_splits option.splits)
next
  case (PanStartChan p)
  then show ?thesis using assms by (auto simp: armed_def)
next
  case PanEndChan
  then show ?thesis using assms by (auto simp: armed_def)
qed (use assms fire_setImage_exact in \<open>simp_all add: Let_def\<close>)

lemma armed_run:
  "run evs st = (es, Inr st') \<Longrightarrow> armed st' j \<Longrightarrow> armed st j"
proof (induction evs arbitrary: st es)
  case Nil
  then show ?case by simp
next
  case (Cons we evs)
  obtain e1 r1 where s: "step (fst we) (snd we) st = (e1, r1)"
    by (cases "step (fst we) (snd we) st")
  obtain st1 where r1: "r1 = Inr st1"
    using Cons.prems(1) s by (cases r1) auto
  obtain e2 r2 where t: "run evs st1 = (e2, r2)"
    by (cases "run evs st1")
  have r2: "r2 = Inr st'"
    using Cons.prems(1) s r1 t by auto
  have "armed st1 j"
    using Cons.IH [OF t [unfolded r2] Cons.prems(2)] .
  then show ?case
    using fire_step [OF s, of j] r1 by simp
qed

lemma fire_run_exact:
  "run evs st = (es, Inr st') \<Longrightarrow> armed st j \<Longrightarrow>
     count_list es (Fire j) = (if armed st' j then 0 else 1)"
proof (induction evs arbitrary: st es)
  case Nil
  then show ?case by simp
next
  case (Cons we evs)
  obtain e1 r1 where s: "step (fst we) (snd we) st = (e1, r1)"
    by (cases "step (fst we) (snd we) st")
  obtain st1 where r1: "r1 = Inr st1"
    using Cons.prems(1) s by (cases r1) auto
  obtain e2 r2 where t: "run evs st1 = (e2, r2)"
    by (cases "run evs st1")
  have es: "es = e1 @ e2" and r2: "r2 = Inr st'"
    using Cons.prems(1) s r1 t by auto
  have one: "count_list e1 (Fire j) = (if armed st1 j then 0 else 1)"
    using fire_step_exact [OF s [unfolded r1] Cons.prems(2)] .
  show ?case
  proof (cases "armed st1 j")
    case True
    then show ?thesis
      using Cons.IH [OF t [unfolded r2] True] one es by simp
  next
    case False
    have "count_list e2 (Fire j) = 0"
      using fire_run [of evs st1 j] t False by simp
    moreover have "\<not> armed st' j"
      using armed_run [OF t [unfolded r2]] False by blast
    ultimately show ?thesis using one es False by simp
  qed
qed

text \<open>
  Claim C7. Over any sequence of messages from any state, the trigger of a slot fires at
  most once, and not at all once its handle is cleared; a handle that was there has
  been cleared at the end exactly when its trigger has fired. Every handle is there in
  the initial state. A switch that lands on an unloaded slot fires the slot's trigger
  exactly when its handle is still there, and leaves the handle cleared, so that no
  later message fires it again.
\<close>

theorem trigger_one_shot:
  "count_list (fst (run evs st)) (Fire j) \<le> 1 \<and>
   (\<not> armed st j \<longrightarrow> count_list (fst (run evs st)) (Fire j) = 0) \<and>
   (armed st j \<and> snd (run evs st) = Inr st2 \<longrightarrow>
      count_list (fst (run evs st)) (Fire j) = (if armed st2 j then 0 else 1)) \<and>
   (0 \<le> j \<and> j < int n \<longrightarrow> armed (canvas_init ns n) j) \<and>
   (wf_state st \<longrightarrow>
      (\<exists>es st'. setImage i pt win st = (es, Inr st') \<and>
         (imgs st ! nat (current st') = None \<longrightarrow>
            count_list es (Fire (current st')) = (if armed st (current st') then 1 else 0) \<and>
            \<not> armed st' (current st'))))"
proof (intro conjI impI)
  show "count_list (fst (run evs st)) (Fire j) \<le> 1"
    using fire_run [of evs st j] by (simp split: if_splits)
  show "count_list (fst (run evs st)) (Fire j) = 0" if "\<not> armed st j"
    using fire_run [of evs st j] that by simp
  show "count_list (fst (run evs st)) (Fire j) = (if armed st2 j then 0 else 1)"
    if "armed st j \<and> snd (run evs st) = Inr st2"
    using fire_run_exact [of evs st "fst (run evs st)" st2 j] that
    by (cases "run evs st") simp
  show "armed (canvas_init ns n) j" if h: "0 \<le> j \<and> j < int n"
  proof -
    have "nat j < n" using h by linarith
    then show ?thesis using h by (simp add: armed_def canvas_init_def)
  qed
  show "\<exists>es st'. setImage i pt win st = (es, Inr st') \<and>
         (imgs st ! nat (current st') = None \<longrightarrow>
            count_list es (Fire (current st')) = (if armed st (current st') then 1 else 0) \<and>
            \<not> armed st' (current st'))" if w: "wf_state st"
  proof (cases "imgs st ! nat (wrap (int (length (imgs st))) i)")
    case None
    show ?thesis
      unfolding setImage_unloaded [OF w refl None]
      using w wrap_range [of "int (length (imgs st))" i]
      by (auto simp: armed_def wf_state_def)
  next
    case (Some v)
    show ?thesis
      unfolding setImage_loaded [OF w refl Some] using Some by simp
  qed
qed

text \<open>
  In the concrete session every handle is there at the start; the first switch to slot 1
  fires its trigger, and going back and forth to the still unloaded slot 1 does not
  fire it again.
\<close>

theorem trigger_one_shot_witness:
  "wf_state demo_init \<and> armed demo_init 1 \<and>
   setImage 1 \<lparr>X = 0, Y = 0\<rparr> demo_win demo_init
     = ([ClearAll, NameSet ''b - Loading...'', Fire 1],
        Inr (demo_init\<lparr>current := 1, imgLoadChans := [True, False]\<rparr>)) \<and>
   imgs demo_init ! nat 1 = None \<and>
   \<not> armed (demo_init\<lparr>current := 1, imgLoadChans := [True, False]\<rparr>) 1 \<and>
   count_list (fst (run [(demo_win, PrevImg), (demo_win, NextImg)]
                      (demo_init\<lparr>current := 1, imgLoadChans := [True, False]\<rparr>))) (Fire 1) = 0 \<and>
   count_list (fst (run (demo_events @ [(demo_win, PrevImg), (demo_win, NextImg)]) demo_init))
      (Fire 1) = 1"
proof -
  have a: "armed demo_init 1" by code_simp
  have s: "setImage 1 \<lparr>X = 0, Y = 0\<rparr> demo_win demo_init
     = ([ClearAll, NameSet ''b - Loading...'', Fire 1],
        Inr (demo_init\<lparr>current := 1, imgLoadChans := [True, False]\<rparr>))" by code_simp
  have i: "imgs demo_init ! nat 1 = None" by code_simp
  have n: "\<not> armed (demo_init\<lparr>current := 1, imgLoadChans := [True, False]\<rparr>) 1" by code_simp
  have c0: "count_list (fst (run [(demo_win, PrevImg), (demo_win, NextImg)]
                      (demo_init\<lparr>current := 1, imgLoadChans := [True, False]\<rparr>))) (Fire 1) = 0"
    using trigger_one_shot [where evs = "[(demo_win, PrevImg), (demo_win, NextImg)]"
        and st = "demo_init\<lparr>current := 1, imgLoadChans := [True, False]\<rparr>" and j = 1] n
    by simp
  have c1: "count_list (fst (run (demo_events @ [(demo_win, PrevImg), (demo_win, NextImg)]) demo_init))
      (Fire 1) = 1" by code_simp
  show ?thesis
    using wf_demo(1) a s i n c0 c1 by simp
qed

subsection \<open>Panning\<close>

text \<open>
  Claim C8, as amended. In a well-formed state whose current slot is loaded, pan-start
  at \<open>p0\<close> followed by pan-step at the same \<open>p0\<close> stores the clamp of the origin that was
  in effect at pan-start, for the window size read at pan-step. The origin is unchanged
  when it was a fixed point of that clamp, in particular when the state is the result
  of a switching message handled under that window size; it is not so in every state
  with a loaded current slot.
\<close>

theorem pan_round_trip_amended:
  assumes "wf_state st" "imgs st ! nat (current st) = Some v"
  shows "\<exists>es st'. run [(w1, PanStartChan p0), (w2, PanStepChan p0)] st = (es, Inr st') \<and>
           current st' = current st \<and>
           origin st' = originTrans (origin st) w2 (Some v) \<and>
           (originTrans (origin st) w2 (Some v) = origin st \<longrightarrow> origin st' = origin st) \<and>
           ((\<exists>st0 ev es0. wf_state st0 \<and> switches ev \<and> step w2 ev st0 = (es0, Inr st))
              \<longrightarrow> origin st' = origin st)"
proof -
  let ?s1 = "st\<lparr>panStart := p0, panOrigin := origin st\<rparr>"
  have w: "wf_state ?s1" using assms(1) by (simp add: wf_state_def)
  have c: "wrap (int (length (imgs ?s1))) (current ?s1) = current st"
    using assms(1) by (simp add: wf_state_def wrap_def)
  have l: "imgs ?s1 ! nat (wrap (int (length (imgs ?s1))) (current ?s1)) = Some v"
    using assms(2) c by simp
  have p: "\<lparr>X = X (origin st), Y = Y (origin st)\<rparr> = origin st"
    by simp
  have f: "originTrans (origin st) w2 (Some v) = origin st"
    if "\<exists>st0 ev es0. wf_state st0 \<and> switches ev \<and> step w2 ev st0 = (es0, Inr st)"
  proof -
    from that obtain st0 ev es0 where
      h: "wf_state st0" "switches ev" "step w2 ev st0 = (es0, Inr st)" by blast
    from switch_clamps [OF h(1,2), of w2] h(3) assms(2) show ?thesis by auto
  qed
  show ?thesis
    using setImage_loaded [OF w refl l, of "origin st" w2] c f
    by (simp add: Let_def p)
qed

theorem pan_round_trip_amended_witness:
  "wf_state demo_shown \<and> imgs demo_shown ! nat (current demo_shown) = Some demo_img0 \<and>
   wf_state (demo_shown\<lparr>origin := \<lparr>X = 0, Y = 0\<rparr>\<rparr>) \<and> switches (DrawChan demo_shift) \<and>
   step demo_win (DrawChan demo_shift) (demo_shown\<lparr>origin := \<lparr>X = 0, Y = 0\<rparr>\<rparr>)
     = ([Paint demo_img0 \<lparr>Min_pt = \<lparr>X = 400, Y = 300\<rparr>, Max_pt = \<lparr>X = 800, Y = 600\<rparr>\<rparr>,
         NameSet ''a (800x600)''], Inr demo_shown) \<and>
   originTrans (origin demo_shown) demo_win (Some demo_img0) = origin demo_shown \<and>
   snd (run [(demo_win, PanStartChan \<lparr>X = 5, Y = 5\<rparr>), (demo_win, PanStepChan \<lparr>X = 5, Y = 5\<rparr>)]
          demo_shown)
     = Inr (demo_shown\<lparr>panStart := \<lparr>X = 5, Y = 5\<rparr>, panOrigin := \<lparr>X = 400, Y = 300\<rparr>\<rparr>) \<and>
   origin (demo_shown\<lparr>panStart := \<lparr>X = 5, Y = 5\<rparr>, panOrigin := \<lparr>X = 400, Y = 300\<rparr>\<rparr>)
     = origin demo_shown"
proof -
  have i: "imgs demo_shown ! nat (current demo_shown) = Some demo_img0" by code_simp
  have w0: "wf_state (demo_shown\<lparr>origin := \<lparr>X = 0, Y = 0\<rparr>\<rparr>)" by code_simp
  have s: "switches (DrawChan demo_shift)" by simp
  have e: "step demo_win (DrawChan demo_shift) (demo_shown\<lparr>origin := \<lparr>X = 0, Y = 0\<rparr>\<rparr>)
     = ([Paint demo_img0 \<lparr>Min_pt = \<lparr>X = 400, Y = 300\<rparr>, Max_pt = \<lparr>X = 800, Y = 600\<rparr>\<rparr>,
         NameSet ''a (800x600)''], Inr demo_shown)" by code_simp
  have f: "originTrans (origin demo_shown) demo_win (Some demo_img0) = origin demo_shown"
    by code_simp
  have r: "snd (run [(demo_win, PanStartChan \<lparr>X = 5, Y = 5\<rparr>),
                     (demo_win, PanStepChan \<lparr>X = 5, Y = 5\<rparr>)] demo_shown)
     = Inr (demo_shown\<lparr>panStart := \<lparr>X = 5, Y = 5\<rparr>, panOrigin := \<lparr>X = 400, Y = 300\<rparr>\<rparr>)"
    by code_simp
  show ?thesis
    using pan_round_trip_amended [OF wf_demo(2) i, of demo_win "\<lparr>X = 5, Y = 5\<rparr>" demo_win]
      wf_demo(2) i w0 s e f r by simp
qed

text \<open>
  The claim as stated fails in a reachable state: after \<open>demo_events\<close> and the arrival of
  image 1 the current slot is loaded and the stored origin is (400, 300), which is not
  clamped for the 100x100 image; the pan round trip changes it to (0, 0).
\<close>

theorem pan_round_trip_counterexample:
  "snd (run (demo_events @ [(demo_win, ImgChan \<lparr>img = Some demo_img1, index = 1\<rparr>)]) demo_init)
     = Inr demo_stale_loaded \<and>
   imgs demo_stale_loaded ! nat (current demo_stale_loaded) = Some demo_img1 \<and>
   origin demo_stale_loaded = \<lparr>X = 400, Y = 300\<rparr> \<and>
   snd (run [(demo_win, PanStartChan \<lparr>X = 5, Y = 5\<rparr>), (demo_win, PanStepChan \<lparr>X = 5, Y = 5\<rparr>)]
          demo_stale_loaded)
     = Inr (demo_stale_loaded\<lparr>origin := \<lparr>X = 0, Y = 0\<rparr>, panStart := \<lparr>X = 5, Y = 5\<rparr>,
                               panOrigin := \<lparr>X = 400, Y = 300\<rparr>\<rparr>)"
  by code_simp

subsection \<open>Load completion\<close>

text \<open>
  Claim C9. A load completion for a slot index stores the image in that slot and leaves
  \<open>current\<close> and \<open>origin\<close> as they are. If the index is \<open>current\<close> it makes the calls of
  \<^verbatim>\<open>show\<close> on the stored origin: one paint at the clamp of the stored origin and one title.
  Otherwise it makes no call. An index that is not a slot index is a fault, with no
  call and no state.
\<close>

theorem load_completion_frame:
  "(0 \<le> index m \<and> index m < int (length (imgs st)) \<longrightarrow>
      (\<exists>es st'. step win (ImgChan m) st = (es, Inr st') \<and>
         imgs st' = (imgs st)[nat (index m) := img m] \<and>
         current st' = current st \<and> origin st' = origin st \<and>
         (index m \<noteq> current st \<longrightarrow> es = []) \<and>
         (index m = current st \<longrightarrow> es = show_img win (img m) (origin st)) \<and>
         (\<forall>v. index m = current st \<and> img m = Some v \<longrightarrow>
            (\<exists>t. es = [Paint v (Rect (X (originTrans (origin st) win (Some v)))
                                     (Y (originTrans (origin st) win (Some v)))
                                     (X (originTrans (origin st) win (Some v)) + Width win)
                                     (Y (originTrans (origin st) win (Some v)) + Height win)),
                        NameSet t])))) \<and>
   (\<not> (0 \<le> index m \<and> index m < int (length (imgs st))) \<longrightarrow>
      step win (ImgChan m) st = ([], Inl IndexOutOfRange))"
  by (auto simp: Let_def show_img_def)

theorem load_completion_frame_witness:
  "0 \<le> index \<lparr>img = Some demo_img0, index = 0\<rparr> \<and>
   index \<lparr>img = Some demo_img0, index = 0\<rparr> < int (length (imgs demo_init)) \<and>
   index \<lparr>img = Some demo_img0, index = 0\<rparr> = current demo_init \<and>
   step demo_win (ImgChan \<lparr>img = Some demo_img0, index = 0\<rparr>) demo_init
     = ([Paint demo_img0 \<lparr>Min_pt = \<lparr>X = 0, Y = 0\<rparr>, Max_pt = \<lparr>X = 400, Y = 300\<rparr>\<rparr>,
         NameSet ''a (800x600)''],
        Inr (demo_init\<lparr>imgs := [Some demo_img0, None]\<rparr>)) \<and>
   step demo_win (ImgChan \<lparr>img = Some demo_img1, index = 1\<rparr>) demo_init
     = ([], Inr (demo_init\<lparr>imgs := [None, Some demo_img1]\<rparr>)) \<and>
   step demo_win (ImgChan \<lparr>img = Some demo_img1, index = 2\<rparr>) demo_init
     = ([], Inl IndexOutOfRange)"
proof -
  have a: "0 \<le> index \<lparr>img = Some demo_img0, index = 0\<rparr>"
    "index \<lparr>img = Some demo_img0, index = 0\<rparr> < int (length (imgs demo_init))"
    "index \<lparr>img = Some demo_img0, index = 0\<rparr> = current demo_init"
    by code_simp+
  have b: "step demo_win (ImgChan \<lparr>img = Some demo_img0, index = 0\<rparr>) demo_init
     = ([Paint demo_img0 \<lparr>Min_pt = \<lparr>X = 0, Y = 0\<rparr>, Max_pt = \<lparr>X = 400, Y = 300\<rparr>\<rparr>,
         NameSet ''a (800x600)''],
        Inr (demo_init\<lparr>imgs := [Some demo_img0, None]\<rparr>))" by code_simp
  have c: "step demo_win (ImgChan \<lparr>img = Some demo_img1, index = 1\<rparr>) demo_init
     = ([], Inr (demo_init\<lparr>imgs := [None, Some demo_img1]\<rparr>))" by code_simp
  have d: "step demo_win (ImgChan \<lparr>img = Some demo_img1, index = 2\<rparr>) demo_init
     = ([], Inl IndexOutOfRange)" by code_simp
  show ?thesis
    using load_completion_frame [of "\<lparr>img = Some demo_img0, index = 0\<rparr>" demo_init demo_win]
      a b c d by simp
qed

subsection \<open>Switching to an unloaded slot\<close>

lemma setImage_unloaded_frame:
  assumes "wf_state st"
  shows "unloaded_frame st (setImage i pt win st)"
proof (cases "imgs st ! nat (wrap (int (length (imgs st))) i)")
  case None
  show ?thesis
    unfolding setImage_unloaded [OF assms refl None]
    by (auto simp: unloaded_frame_def)
next
  case (Some v)
  show ?thesis
    unfolding setImage_loaded [OF assms refl Some]
    using Some by (simp add: unloaded_frame_def)
qed

text \<open>
  Claim C10. In a well-formed state \<^verbatim>\<open>setImage\<close> does not fault, and when the slot it lands
  on is unloaded the stored origin keeps its value: the candidate point is not stored,
  the state changes in \<open>current\<close> and in that slot's trigger handle only, and the calls
  made are among clearing the window, setting the loading title and firing that slot's
  trigger. The same holds for a Previous and a Next request.
\<close>

theorem unloaded_switch_keeps_origin:
  assumes "wf_state st"
  shows "unloaded_frame st (setImage i pt win st) \<and>
         unloaded_frame st (step win PrevImg st) \<and>
         unloaded_frame st (step win NextImg st)"
  using setImage_unloaded_frame [OF assms] by simp

theorem unloaded_switch_keeps_origin_witness:
  "wf_state demo_shown \<and>
   unloaded_frame demo_shown (step demo_win NextImg demo_shown) \<and>
   step demo_win NextImg demo_shown
     = ([ClearAll, NameSet ''b - Loading...'', Fire 1], Inr demo_stale) \<and>
   imgs demo_shown ! nat (current demo_stale) = None \<and>
   origin demo_stale = origin demo_shown \<and>
   origin demo_shown = \<lparr>X = 400, Y = 300\<rparr>"
proof -
  have s: "step demo_win NextImg demo_shown
     = ([ClearAll, NameSet ''b - Loading...'', Fire 1], Inr demo_stale)" by code_simp
  have i: "imgs demo_shown ! nat (current demo_stale) = None" by code_simp
  have o: "origin demo_stale = origin demo_shown" "origin demo_shown = \<lparr>X = 400, Y = 300\<rparr>"
    by code_simp+
  show ?thesis
    using unloaded_switch_keeps_origin [OF wf_demo(2), of 1 "\<lparr>X = 0, Y = 0\<rparr>" demo_win]
      wf_demo(2) s i o by simp
qed


end
